theory Spec2Isabelle
  imports Complex_Main
begin

section \<open>Speaker-aligned transcript assembly (pyannote\_diarization\_service.py)\<close>

text \<open>
  The model follows \<^verbatim>\<open>PyannoteDiarizationService\<close>. Times are Python floats; they are
  modelled as exact reals, so every comparison and difference is the mathematical one.
  A text is a \<^typ>\<open>string\<close>: a list of characters with code points below 256.
\<close>

subsection \<open>Python string primitives\<close>

text \<open>
  \<^verbatim>\<open>str.split()\<close> and \<^verbatim>\<open>str.strip()\<close> treat as whitespace the characters for which
  \<^verbatim>\<open>str.isspace\<close> holds; below 256 these are the code points 9 to 13, 28 to 32, 133 and 160.
\<close>

definition is_space :: "char \<Rightarrow> bool" where
  "is_space c =
     (let n = (of_char c :: nat)
      in (9 \<le> n \<and> n \<le> 13) \<or> (28 \<le> n \<and> n \<le> 32) \<or> n = 133 \<or> n = 160)"

text \<open>\<^verbatim>\<open>s.split()\<close>: the maximal runs of non-whitespace characters, in order.\<close>

fun split_from :: "string \<Rightarrow> string \<Rightarrow> string list" where
  "split_from w [] = (if w = [] then [] else [w])"
| "split_from w (c # cs) =
     (if is_space c then (if w = [] then split_from [] cs else w # split_from [] cs)
      else split_from (w @ [c]) cs)"

definition py_split :: "string \<Rightarrow> string list" where
  "py_split s = split_from [] s"

text \<open>\<^verbatim>\<open>sep.join(ws)\<close>.\<close>

fun py_join :: "string \<Rightarrow> string list \<Rightarrow> string" where
  "py_join sep [] = []"
| "py_join sep [w] = w"
| "py_join sep (w # v # ws) = w @ sep @ py_join sep (v # ws)"

text \<open>\<^verbatim>\<open>s.strip()\<close>: leading and trailing whitespace removed.\<close>

definition py_strip :: "string \<Rightarrow> string" where
  "py_strip s = rev (dropWhile is_space (rev (dropWhile is_space s)))"

text \<open>
  \<^verbatim>\<open>xs[-k:]\<close> for \<open>k \<ge> 0\<close>: the last \<open>k\<close> elements (all of them when \<open>k\<close> is at least the
  length), except that \<^verbatim>\<open>xs[-0:]\<close> is \<^verbatim>\<open>xs[0:]\<close>, the whole list.
\<close>

definition slice_last :: "nat \<Rightarrow> 'a list \<Rightarrow> 'a list" where
  "slice_last k xs = (if k = 0 then xs else drop (length xs - k) xs)"

subsection \<open>Data\<close>

text \<open>A Whisper chunk: \<^verbatim>\<open>{'timestamp': (start, end), 'text': text}\<close>.\<close>

record chunk =
  timestamp :: "real \<times> real"
  ctext :: string

text \<open>
  A speaker segment \<^verbatim>\<open>{'start', 'end', 'speaker'}\<close>, and an aligned result, which has
  the field \<^verbatim>\<open>'text'\<close> as well.
\<close>

record spk_seg =
  start :: real
  endt :: real
  speaker :: string

record result = spk_seg +
  rtext :: string

subsection \<open>Chunk merger\<close>

text \<open>
  The body of the loop of \<^verbatim>\<open>_merge_overlapping_chunks\<close>: \<open>merged\<close> is the accumulator
  (never empty inside the loop), \<open>current\<close> the chunk at hand. Assigning to
  \<^verbatim>\<open>merged[-1]\<close> replaces the last element.
\<close>

definition merge_chunk :: "chunk list \<Rightarrow> chunk \<Rightarrow> chunk list" where
  "merge_chunk merged current =
     (let prev = last merged in
      if fst (timestamp current) < snd (timestamp prev) then
        let overlap_duration = snd (timestamp prev) - fst (timestamp current) in
        if overlap_duration > (snd (timestamp prev) - fst (timestamp prev)) * 0.5 then
          let prev_words = py_split (ctext prev);
              current_words = py_split (ctext current);
              overlap_words = min 5 (length prev_words) in
          if slice_last overlap_words prev_words = take overlap_words current_words then
            butlast merged @
              [prev\<lparr>ctext := ctext prev @ '' '' @ py_join '' '' (drop overlap_words current_words),
                    timestamp := (fst (timestamp prev), snd (timestamp current))\<rparr>]
          else merged @ [current]
        else merged @ [current]
      else merged @ [current])"

definition merge_overlapping_chunks :: "chunk list \<Rightarrow> chunk list" where
  "merge_overlapping_chunks chunks =
     (case chunks of [] \<Rightarrow> [] | c # cs \<Rightarrow> foldl merge_chunk [c] cs)"

subsection \<open>Hallucination filter\<close>

definition is_digit :: "char \<Rightarrow> bool" where
  "is_digit c = (let n = (of_char c :: nat) in 48 \<le> n \<and> n \<le> 57)"

text \<open>
  The regular expression \<^verbatim>\<open><\|(\d+\.\d+)\|>\<close> tried at the head of a string: the
  captured group and the text after the match. Both digit runs are greedy and are followed
  by a non-digit, so the match is unique when there is one.
\<close>

definition match_timestamp :: "string \<Rightarrow> (string \<times> string) option" where
  "match_timestamp s =
     (if take 2 s = ''<|'' then
        let r = drop 2 s; ip = takeWhile is_digit r; r1 = dropWhile is_digit r in
        if ip \<noteq> [] \<and> take 1 r1 = ''.'' then
          let r2 = drop 1 r1; fp = takeWhile is_digit r2; r3 = dropWhile is_digit r2 in
          if fp \<noteq> [] \<and> take 2 r3 = ''|>'' then Some (ip @ ''.'' @ fp, drop 2 r3) else None
        else None
      else None)"

lemma match_timestamp_shorter:
  "match_timestamp s = Some (g, rest) \<Longrightarrow> length rest < length s"
proof -
  assume m: "match_timestamp s = Some (g, rest)"
  have d: "length (dropWhile is_digit xs) \<le> length xs" for xs
    by (simp add: length_dropWhile_le)
  from m have r: "rest = drop 2 (dropWhile is_digit (drop 1 (dropWhile is_digit (drop 2 s))))"
    and s2: "take 2 s = ''<|''"
    by (auto simp: match_timestamp_def Let_def split: if_splits)
  from s2 have "2 \<le> length s" by (cases s; cases "tl s") auto
  moreover have "length rest \<le> length s - 2"
    unfolding r using d [of "drop 2 s"] d [of "drop 1 (dropWhile is_digit (drop 2 s))"]
    by simp
  ultimately show ?thesis by simp
qed

text \<open>
  \<^verbatim>\<open>re.split(timestamp_pattern, text)\<close>: the pieces between the matches, with the
  captured group of each match between them; \<open>acc\<close> is the piece being read.
\<close>

function re_split_from :: "string \<Rightarrow> string \<Rightarrow> string list" where
  "re_split_from acc [] = [acc]"
| "re_split_from acc (c # cs) =
     (case match_timestamp (c # cs) of
        Some (g, rest) \<Rightarrow> acc # g # re_split_from [] rest
      | None \<Rightarrow> re_split_from (acc @ [c]) cs)"
  by pat_completeness auto
termination
proof (relation "measure (\<lambda>(acc, s). length s)")
  show "wf (measure (\<lambda>(acc, s). length s))" by simp
next
  fix acc :: string and c cs x2 x y
  assume "match_timestamp (c # cs) = Some x2" and "(x, y) = x2"
  then have "match_timestamp (c # cs) = Some (x, y)" by simp
  from match_timestamp_shorter [OF this]
  show "(([], y), acc, c # cs) \<in> measure (\<lambda>(acc, s). length s)" by simp
next
  fix acc :: string and c cs
  show "((acc @ [c], cs), acc, c # cs) \<in> measure (\<lambda>(acc, s). length s)" by simp
qed

definition re_split :: "string \<Rightarrow> string list" where
  "re_split s = re_split_from [] s"

text \<open>
  \<^verbatim>\<open>float(g)\<close> for a group \<open>g\<close> of the pattern (digits, a point, digits): its decimal
  value.
\<close>

definition nat_of_digits :: "string \<Rightarrow> nat" where
  "nat_of_digits ds = foldl (\<lambda>n c. 10 * n + (of_char c - 48)) 0 ds"

definition py_float :: "string \<Rightarrow> real" where
  "py_float g =
     (let ip = takeWhile is_digit g; fp = drop (length ip + 1) g
      in real (nat_of_digits ip) + real (nat_of_digits fp) / 10 ^ length fp)"

text \<open>\<^verbatim>\<open>needle in hay\<close> on strings: \<open>needle\<close> occurs in \<open>hay\<close> as a contiguous piece.\<close>

fun contains :: "string \<Rightarrow> string \<Rightarrow> bool" where
  "contains [] needle = (needle = [])"
| "contains (c # cs) needle = (take (length needle) (c # cs) = needle \<or> contains cs needle)"

text \<open>
  The loop \<^verbatim>\<open>for i in range(1, len(parts), 2)\<close> of \<^verbatim>\<open>_parse_whisper_output\<close>; the
  argument is \<^verbatim>\<open>parts[i:]\<close>. The pattern only captures what \<^verbatim>\<open>float\<close> accepts, so the
  \<^verbatim>\<open>except\<close> branch is never taken. \<^verbatim>\<open>len(set(ws))\<close> is \<^term>\<open>length (remdups ws)\<close>.
\<close>

fun timed_chunks :: "string list \<Rightarrow> chunk list" where
  "timed_chunks (g # t # rest) =
     (let start_time = py_float g;
          chunk_text = py_strip t;
          end_time = (case rest of g' # _ \<Rightarrow> py_float g' | [] \<Rightarrow> start_time + 2.0) in
      if end_time \<le> start_time then timed_chunks rest
      else if chunk_text = [] \<or> contains ''.,?!:'' chunk_text then timed_chunks rest
      else if length (py_split chunk_text) > 4 \<and> length (remdups (py_split chunk_text)) = 1
        then timed_chunks rest
      else \<lparr>timestamp = (start_time, end_time), ctext = chunk_text\<rparr> # timed_chunks rest)"
| "timed_chunks _ = []"

text \<open>
  \<^verbatim>\<open>.*?\|>\<close> read after a \<^verbatim>\<open><|\<close>: the text after the first \<^verbatim>\<open>|>\<close>, found before any
  line feed (which \<^verbatim>\<open>.\<close> does not match).
\<close>

fun find_close :: "string \<Rightarrow> string option" where
  "find_close [] = None"
| "find_close (c # cs) =
     (if c = CHR ''|'' \<and> take 1 cs = ''>'' then Some (drop 1 cs)
      else if c = CHR 0x0A then None
      else find_close cs)"

lemma find_close_shorter: "find_close s = Some r \<Longrightarrow> length r < length s"
  by (induction s) (auto split: if_splits)

text \<open>\<^verbatim>\<open>re.sub(r'<\|.*?\|>', '', text)\<close>.\<close>

function strip_tokens :: "string \<Rightarrow> string" where
  "strip_tokens [] = []"
| "strip_tokens (c # cs) =
     (if c = CHR ''<'' \<and> take 1 cs = ''|'' then
        (case find_close (drop 1 cs) of
           Some rest \<Rightarrow> strip_tokens rest
         | None \<Rightarrow> c # strip_tokens cs)
      else c # strip_tokens cs)"
  by pat_completeness auto
termination
proof (relation "measure length")
  show "wf (measure length)" by simp
next
  fix c :: char and cs rest
  assume "find_close (drop 1 cs) = Some rest"
  from find_close_shorter [OF this] have "length rest < length cs" by simp
  then show "(rest, c # cs) \<in> measure length" by simp
qed simp_all

text \<open>The repetition-loop test at the head of \<^verbatim>\<open>_parse_whisper_output\<close>.\<close>

definition is_repetition_loop :: "string \<Rightarrow> bool" where
  "is_repetition_loop txt =
     (let words = py_split txt in
      length words > 10 \<and>
      real (length (remdups words)) / real (length words) < 0.1)"

text \<open>
  \<^verbatim>\<open>_parse_whisper_output\<close> returns \<^verbatim>\<open>{'chunks': chunks, 'text': text}\<close>, here the pair.
\<close>

definition parse_whisper_output :: "string \<Rightarrow> chunk list \<times> string" where
  "parse_whisper_output txt =
     (if is_repetition_loop txt then ([], [])
      else
        let parts = re_split txt;
            chunks = timed_chunks (tl parts) in
        if chunks = [] then
          let clean_text = py_strip (strip_tokens txt) in
          if clean_text \<noteq> [] \<and> length clean_text < 200
          then ([\<lparr>timestamp = (0.0, 2.0), ctext = clean_text\<rparr>], txt)
          else ([], txt)
        else (chunks, txt))"

subsection \<open>Diarization smoother\<close>

text \<open>
  The \<^verbatim>\<open>Annotation\<close> and \<^verbatim>\<open>Segment\<close> of the diarization library (pyannote.core) are
  not part of the repository. The source iterates the input with \<^verbatim>\<open>itertracks\<close>, builds
  segments and writes \<^verbatim>\<open>new_annotation[segment] = label\<close>; the result is read with
  \<^verbatim>\<open>itertracks\<close> again. The library's behaviour in these operations:
  \<^item> a segment is empty (false) unless its end exceeds its start by more than one
    microsecond, and assigning to an empty segment does nothing;
  \<^item> an annotation holds its segments in increasing order of (start, end);
  \<^item> \<^verbatim>\<open>annotation[segment] = label\<close> writes the track \<^verbatim>\<open>'_'\<close> of the segment: a segment
    already there keeps its place and takes the new label.
  The input annotation is the list of its tracks as \<^verbatim>\<open>itertracks\<close> yields them; the new
  annotation is the list of its segments with their labels in the library's order, which
  is what \<^verbatim>\<open>itertracks\<close> yields from it.
\<close>

definition segment_bool :: "spk_seg \<Rightarrow> bool" where
  "segment_bool s = (endt s - start s > 1 / 1000000)"

definition segment_less :: "spk_seg \<Rightarrow> spk_seg \<Rightarrow> bool" where
  "segment_less a b = (start a < start b \<or> (start a = start b \<and> endt a < endt b))"

fun annotation_insert :: "spk_seg list \<Rightarrow> spk_seg \<Rightarrow> spk_seg list" where
  "annotation_insert [] x = [x]"
| "annotation_insert (y # ys) x =
     (if start x = start y \<and> endt x = endt y then x # ys
      else if segment_less x y then x # y # ys
      else y # annotation_insert ys x)"

definition annotation_setitem :: "spk_seg list \<Rightarrow> spk_seg \<Rightarrow> spk_seg list" where
  "annotation_setitem annotation x =
     (if segment_bool x then annotation_insert annotation x else annotation)"

text \<open>
  The body of the loop of \<^verbatim>\<open>_post_process_diarization\<close>: the state is the new annotation
  and the current segment with its label.
\<close>

definition smooth_step :: "spk_seg list \<times> spk_seg \<Rightarrow> spk_seg \<Rightarrow> spk_seg list \<times> spk_seg" where
  "smooth_step st nxt =
     (case st of (new_annotation, current) \<Rightarrow>
        let gap = start nxt - endt current in
        if speaker nxt = speaker current \<and> gap < 1.0
        then (new_annotation, current\<lparr>endt := endt nxt\<rparr>)
        else (annotation_setitem new_annotation current, nxt))"

definition post_process_diarization :: "spk_seg list \<Rightarrow> spk_seg list" where
  "post_process_diarization diarization =
     (let sorted_segments = sort_key start diarization in
      case sorted_segments of
        [] \<Rightarrow> diarization
      | s # rest \<Rightarrow>
          (case foldl smooth_step ([], s) rest of
             (new_annotation, current) \<Rightarrow> annotation_setitem new_annotation current))"


subsection \<open>Alignment engine\<close>

text \<open>
  \<^verbatim>\<open>overlap_stats\<close> is a dictionary; it keeps its keys in insertion order, which
  \<^verbatim>\<open>max(overlap_stats, key=overlap_stats.get)\<close> iterates, returning the first key of
  greatest value. It is an association list here.
\<close>

fun stats_add :: "(string \<times> real) list \<Rightarrow> string \<Rightarrow> real \<Rightarrow> (string \<times> real) list" where
  "stats_add [] k v = [(k, 0 + v)]"
| "stats_add ((k', v') # kvs) k v =
     (if k' = k then (k', v' + v) # kvs else (k', v') # stats_add kvs k v)"

fun max_from :: "string \<times> real \<Rightarrow> (string \<times> real) list \<Rightarrow> string \<times> real" where
  "max_from best [] = best"
| "max_from best (kv # kvs) = max_from (if snd kv > snd best then kv else best) kvs"

definition overlap_stats_of :: "real \<Rightarrow> real \<Rightarrow> spk_seg list \<Rightarrow> (string \<times> real) list" where
  "overlap_stats_of w_start w_end speaker_segments =
     foldl (\<lambda>overlap_stats spk_seg.
        let overlap_start = max w_start (start spk_seg);
            overlap_end = min w_end (endt spk_seg);
            overlap_dur = max 0 (overlap_end - overlap_start) in
        if overlap_dur > 0 then stats_add overlap_stats (speaker spk_seg) overlap_dur
        else overlap_stats) [] speaker_segments"

text \<open>\<^verbatim>\<open>min_distance\<close> starts at \<^verbatim>\<open>float('inf')\<close>, which is \<open>None\<close> here.\<close>

definition find_nearest_speaker :: "real \<Rightarrow> real \<Rightarrow> spk_seg list \<Rightarrow> string" where
  "find_nearest_speaker w_start w_end speaker_segments =
     (let mid_point = (w_start + w_end) / 2 in
      snd (foldl (\<lambda>(min_distance, best_speaker) segment.
             let segment_mid = (start segment + endt segment) / 2;
                 distance = \<bar>mid_point - segment_mid\<bar> in
             if (case min_distance of None \<Rightarrow> True | Some m \<Rightarrow> distance < m)
             then (Some distance, speaker segment)
             else (min_distance, best_speaker))
           (None, ''SPEAKER_00'') speaker_segments))"

text \<open>One pass of the outer loop: the results appended for one chunk (none or one).\<close>

definition align_chunk :: "spk_seg list \<Rightarrow> chunk \<Rightarrow> result list" where
  "align_chunk speaker_segments chunk =
     (let w_start = fst (timestamp chunk);
          w_end = snd (timestamp chunk);
          w_text = ctext chunk;
          w_duration = w_end - w_start in
      if w_duration \<le> 0 then []
      else
        let overlap_stats = overlap_stats_of w_start w_end speaker_segments in
        (case overlap_stats of
           [] \<Rightarrow>
             [\<lparr>start = w_start, endt = w_end,
               speaker = find_nearest_speaker w_start w_end speaker_segments, rtext = w_text\<rparr>]
         | kv # kvs \<Rightarrow>
             [\<lparr>start = w_start, endt = w_end,
               speaker = fst (max_from kv kvs), rtext = w_text\<rparr>]))"

definition align_whisper_with_diarization :: "chunk list \<Rightarrow> spk_seg list \<Rightarrow> result list" where
  "align_whisper_with_diarization whisper_chunks speaker_segments =
     concat (map (align_chunk speaker_segments) whisper_chunks)"

subsection \<open>Redundancy remover\<close>

text \<open>
  \<^verbatim>\<open>str.lower()\<close> on code points below 256: the letters A to Z and the capital letters
  from 192 to 222 (215, the multiplication sign, apart) move up by 32.
\<close>

definition lower_char :: "char \<Rightarrow> char" where
  "lower_char c =
     (let n = (of_char c :: nat)
      in if (65 \<le> n \<and> n \<le> 90) \<or> (192 \<le> n \<and> n \<le> 222 \<and> n \<noteq> 215)
         then char_of (n + 32) else c)"

definition py_lower :: "string \<Rightarrow> string" where
  "py_lower s = map lower_char s"

text \<open>
  The body of the loop of \<^verbatim>\<open>_remove_redundant_segments\<close>; \<open>cleaned\<close> is never empty
  inside the loop. The division is guarded by \<^verbatim>\<open>current_duration > 0\<close>.
\<close>

definition remove_step :: "result list \<Rightarrow> result \<Rightarrow> result list" where
  "remove_step cleaned current =
     (let prev = last cleaned;
          overlap_start = max (start prev) (start current);
          overlap_end = min (endt prev) (endt current);
          overlap_duration = max 0 (overlap_end - overlap_start);
          current_duration = endt current - start current in
      if current_duration > 0 \<and> overlap_duration / current_duration > 0.8 \<and>
         set (py_split (py_lower (rtext current))) \<subseteq> set (py_split (py_lower (rtext prev)))
      then cleaned
      else
        let current = (if start current < endt prev \<and> overlap_duration < 1.0
                       then current\<lparr>start := endt prev\<rparr> else current) in
        if endt current - start current > 0.1 then cleaned @ [current] else cleaned)"

definition remove_redundant_segments :: "result list \<Rightarrow> result list" where
  "remove_redundant_segments segments =
     (case segments of [] \<Rightarrow> [] | s # rest \<Rightarrow> foldl remove_step [s] rest)"

subsection \<open>Turn merger\<close>

text \<open>
  The body of the loop of \<^verbatim>\<open>_merge_consecutive_speakers\<close>, on the pair of the list
  \<open>merged\<close> and the segment \<open>current\<close>.
\<close>

definition turn_step :: "result list \<times> result \<Rightarrow> result \<Rightarrow> result list \<times> result" where
  "turn_step st next_seg =
     (case st of (merged, current) \<Rightarrow>
        if speaker current = speaker next_seg then
          let gap = start next_seg - endt current in
          if gap < 2.0 then
            (merged, current\<lparr>rtext := rtext current @ '' '' @ rtext next_seg,
                             endt := max (endt current) (endt next_seg)\<rparr>)
          else (merged @ [current], next_seg)
        else (merged @ [current], next_seg))"

definition merge_consecutive_speakers :: "result list \<Rightarrow> result list" where
  "merge_consecutive_speakers results =
     (case results of
        [] \<Rightarrow> results
      | r # rest \<Rightarrow>
          (case foldl turn_step ([], r) rest of (merged, current) \<Rightarrow> merged @ [current]))"

subsection \<open>The pipeline\<close>

text \<open>
  \<^verbatim>\<open>process_with_speakers\<close> from the outputs of the two engines on: \<open>all_chunks\<close> is the
  list that \<^verbatim>\<open>transcribe_audio_chunked\<close> collects from the decoded windows and hands to
  \<^verbatim>\<open>_merge_overlapping_chunks\<close>, \<open>raw_annotation\<close> the diarization. The last step of
  the source formats each result (label, overlap flag) and keeps its times and text.
\<close>

definition process_with_speakers :: "chunk list \<Rightarrow> spk_seg list \<Rightarrow> result list" where
  "process_with_speakers all_chunks raw_annotation =
     (let clean_diarization = post_process_diarization raw_annotation;
          chunks = merge_overlapping_chunks all_chunks;
          speaker_segments = clean_diarization;
          results = align_whisper_with_diarization chunks speaker_segments;
          results = sort_key start results;
          results = remove_redundant_segments results;
          results = merge_consecutive_speakers results
      in results)"

text \<open>The sum of \<^verbatim>\<open>end - start\<close> over a list of results, and over a list of chunks.\<close>

definition total_duration :: "result list \<Rightarrow> real" where
  "total_duration rs = (\<Sum>r\<leftarrow>rs. endt r - start r)"

definition chunks_duration :: "chunk list \<Rightarrow> real" where
  "chunks_duration cs = (\<Sum>c\<leftarrow>cs. snd (timestamp c) - fst (timestamp c))"

section \<open>Properties\<close>

subsection \<open>Chunk merger\<close>

lemma merge_overlapping_chunks_snoc:
  "chunks \<noteq> [] \<Longrightarrow>
   merge_overlapping_chunks (chunks @ [cur]) = merge_chunk (merge_overlapping_chunks chunks) cur"
  by (cases chunks) (simp_all add: merge_overlapping_chunks_def)

lemma slice_last_min:
  "slice_last (min 5 (length ws)) ws = drop (length ws - min 5 (length ws)) ws"
  by (cases ws) (simp_all add: slice_last_def)

text \<open>
  Claim C1, as the code has it. For a non-empty chunk list and a further chunk \<open>cur\<close>, let
  \<open>prev\<close> be the last chunk merged so far: when \<open>cur\<close> starts before \<open>prev\<close> ends, the
  overlap is more than half of the duration of \<open>prev\<close>, and the last
  \<open>k = min 5 (number of words of prev)\<close> words of \<open>prev\<close> are the first \<open>k\<close> words of \<open>cur\<close>,
  the merger replaces \<open>prev\<close> by one chunk from the start of \<open>prev\<close> to the end of
  \<open>cur\<close>, whose text is the text of \<open>prev\<close>, a space, and the words of \<open>cur\<close> beyond the
  first \<open>k\<close>. The two chunks of Scenario 1 do not meet these conditions (the overlap of
  2 seconds is not more than half of 10, and the last five words of the first are not the
  first five of the second): the merger returns them unchanged.
\<close>

theorem merge_stitch:
  "(chunks \<noteq> [] \<longrightarrow>
    (let merged = merge_overlapping_chunks chunks;
         prev = last merged;
         prev_words = py_split (ctext prev);
         cur_words = py_split (ctext cur);
         k = min 5 (length prev_words) in
     fst (timestamp cur) < snd (timestamp prev) \<longrightarrow>
     snd (timestamp prev) - fst (timestamp cur) > 0.5 * (snd (timestamp prev) - fst (timestamp prev)) \<longrightarrow>
     drop (length prev_words - k) prev_words = take k cur_words \<longrightarrow>
     merge_overlapping_chunks (chunks @ [cur]) =
       butlast merged @
         [\<lparr>timestamp = (fst (timestamp prev), snd (timestamp cur)),
           ctext = ctext prev @ '' '' @ py_join '' '' (drop k cur_words)\<rparr>]))
   \<and> merge_overlapping_chunks
        [\<lparr>timestamp = (0, 10), ctext = ''hello world how are you''\<rparr>,
         \<lparr>timestamp = (8, 18), ctext = ''how are you today friend''\<rparr>] =
        [\<lparr>timestamp = (0, 10), ctext = ''hello world how are you''\<rparr>,
         \<lparr>timestamp = (8, 18), ctext = ''how are you today friend''\<rparr>]"
proof (intro conjI impI)
  assume ne: "chunks \<noteq> []"
  show "let merged = merge_overlapping_chunks chunks;
         prev = last merged;
         prev_words = py_split (ctext prev);
         cur_words = py_split (ctext cur);
         k = min 5 (length prev_words) in
     fst (timestamp cur) < snd (timestamp prev) \<longrightarrow>
     snd (timestamp prev) - fst (timestamp cur) > 0.5 * (snd (timestamp prev) - fst (timestamp prev)) \<longrightarrow>
     drop (length prev_words - k) prev_words = take k cur_words \<longrightarrow>
     merge_overlapping_chunks (chunks @ [cur]) =
       butlast merged @
         [\<lparr>timestamp = (fst (timestamp prev), snd (timestamp cur)),
           ctext = ctext prev @ '' '' @ py_join '' '' (drop k cur_words)\<rparr>]"
    unfolding merge_overlapping_chunks_snoc [OF ne] Let_def
    by (simp add: merge_chunk_def Let_def slice_last_min mult.commute)
next
  show "merge_overlapping_chunks
        [\<lparr>timestamp = (0, 10), ctext = ''hello world how are you''\<rparr>,
         \<lparr>timestamp = (8, 18), ctext = ''how are you today friend''\<rparr>] =
        [\<lparr>timestamp = (0, 10), ctext = ''hello world how are you''\<rparr>,
         \<lparr>timestamp = (8, 18), ctext = ''how are you today friend''\<rparr>]"
    by (simp add: merge_overlapping_chunks_def merge_chunk_def)
qed

theorem merge_stitch_witness:
  "merge_overlapping_chunks
     ([\<lparr>timestamp = (0, 10), ctext = ''we met on monday''\<rparr>] @
      [\<lparr>timestamp = (4, 18), ctext = ''we met on monday and tuesday''\<rparr>]) =
   [\<lparr>timestamp = (0, 18), ctext = ''we met on monday and tuesday''\<rparr>]"
  using merge_stitch [of "[\<lparr>timestamp = (0, 10), ctext = ''we met on monday''\<rparr>]"
      "\<lparr>timestamp = (4, 18), ctext = ''we met on monday and tuesday''\<rparr>"]
  by (simp add: merge_overlapping_chunks_def py_split_def is_space_def)

text \<open>Scenario 1 as the specification states it does not hold.\<close>

theorem scenario1_counterexample:
  "merge_overlapping_chunks
     [\<lparr>timestamp = (0, 10), ctext = ''hello world how are you''\<rparr>,
      \<lparr>timestamp = (8, 18), ctext = ''how are you today friend''\<rparr>] \<noteq>
   [\<lparr>timestamp = (0, 18), ctext = ''hello world how are you today friend''\<rparr>]"
  by (simp add: merge_overlapping_chunks_def merge_chunk_def)

text \<open>
  Claim C9, as the code has it. When the last merged chunk \<open>prev\<close> has an empty text, the
  number of boundary words is zero and the comparison of the two empty word lists
  succeeds: the merger appends \<open>cur\<close> as a chunk of its own only when \<open>cur\<close> does not start
  before \<open>prev\<close> ends or the overlap is at most half of the duration of \<open>prev\<close>;
  otherwise it stitches, the text becoming a space followed by the words of \<open>cur\<close> and the
  end that of \<open>cur\<close>.
\<close>

theorem empty_prev_stitch:
  "chunks \<noteq> [] \<Longrightarrow> ctext (last (merge_overlapping_chunks chunks)) = [] \<Longrightarrow>
   merge_overlapping_chunks (chunks @ [cur]) =
     (let merged = merge_overlapping_chunks chunks; prev = last merged in
      if fst (timestamp cur) < snd (timestamp prev) \<and>
         snd (timestamp prev) - fst (timestamp cur) >
           (snd (timestamp prev) - fst (timestamp prev)) * 0.5
      then butlast merged @
             [\<lparr>timestamp = (fst (timestamp prev), snd (timestamp cur)),
               ctext = '' '' @ py_join '' '' (py_split (ctext cur))\<rparr>]
      else merged @ [cur])"
  by (simp add: merge_overlapping_chunks_snoc merge_chunk_def Let_def py_split_def
      slice_last_def)

theorem empty_prev_stitch_witness:
  "merge_overlapping_chunks
     ([\<lparr>timestamp = (0, 10), ctext = ''''\<rparr>] @ [\<lparr>timestamp = (2, 12), ctext = ''a b''\<rparr>]) =
   [\<lparr>timestamp = (0, 12), ctext = '' a b''\<rparr>] \<and>
   merge_overlapping_chunks
     ([\<lparr>timestamp = (0, 10), ctext = ''''\<rparr>] @ [\<lparr>timestamp = (6, 12), ctext = ''a b''\<rparr>]) =
   [\<lparr>timestamp = (0, 10), ctext = ''''\<rparr>, \<lparr>timestamp = (6, 12), ctext = ''a b''\<rparr>]"
  using empty_prev_stitch [of "[\<lparr>timestamp = (0, 10), ctext = ''''\<rparr>]"
      "\<lparr>timestamp = (2, 12), ctext = ''a b''\<rparr>"]
    empty_prev_stitch [of "[\<lparr>timestamp = (0, 10), ctext = ''''\<rparr>]"
      "\<lparr>timestamp = (6, 12), ctext = ''a b''\<rparr>"]
  by (simp add: merge_overlapping_chunks_def py_split_def is_space_def)

text \<open>An empty previous text does not prevent the stitch.\<close>

theorem empty_prev_counterexample:
  "merge_overlapping_chunks
     [\<lparr>timestamp = (0, 10), ctext = ''''\<rparr>, \<lparr>timestamp = (2, 12), ctext = ''a''\<rparr>] =
   [\<lparr>timestamp = (0, 12), ctext = '' a''\<rparr>] \<and>
   merge_overlapping_chunks
     [\<lparr>timestamp = (0, 10), ctext = ''''\<rparr>, \<lparr>timestamp = (2, 12), ctext = ''a''\<rparr>] \<noteq>
   [\<lparr>timestamp = (0, 10), ctext = ''''\<rparr>, \<lparr>timestamp = (2, 12), ctext = ''a''\<rparr>]"
  by (simp add: merge_overlapping_chunks_def merge_chunk_def py_split_def slice_last_def
      is_space_def)

subsection \<open>Hallucination filter\<close>

text \<open>A text without \<^verbatim>\<open><|\<close> has no marker to split at and no token to remove.\<close>

lemma re_split_from_no_marker:
  "\<not> contains s ''<|'' \<Longrightarrow> re_split_from acc s = [acc @ s]"
proof (induction s arbitrary: acc)
  case Nil
  show ?case by simp
next
  case (Cons c cs)
  from Cons.prems have t: "take 2 (c # cs) \<noteq> ''<|''" and r: "\<not> contains cs ''<|''"
    by simp_all
  have "match_timestamp (c # cs) = None"
    unfolding match_timestamp_def by (rule if_not_P) (rule t)
  with Cons.IH [OF r, of "acc @ [c]"] show ?case by simp
qed

lemma strip_tokens_no_marker:
  "\<not> contains s ''<|'' \<Longrightarrow> strip_tokens s = s"
proof (induction s)
  case Nil
  show ?case by simp
next
  case (Cons c cs)
  from Cons.prems have t: "take 2 (c # cs) \<noteq> ''<|''" and r: "\<not> contains cs ''<|''"
    by simp_all
  from t have nc: "\<not> (c = CHR ''<'' \<and> take 1 cs = ''|'')"
    by (cases cs) auto
  show ?case
    by (simp only: strip_tokens.simps if_not_P [OF nc] Cons.IH [OF r])
qed

text \<open>
  Claim C7, as the code has it. A block that the repetition-loop test discards yields no
  chunk at all. Otherwise, when timed sub-chunks survive the filters they are the output,
  and when none survives (no marker was parsed, or every sub-chunk was discarded) the
  output is the single synthetic chunk from 0.0 to 2.0 carrying the text left after all
  \<^verbatim>\<open><|...|>\<close> tokens are removed and the ends trimmed, if that text is non-empty and
  shorter than 200 characters, and nothing if it is empty or has 200 characters or more.
  For a text without any \<^verbatim>\<open><|\<close> that text is the trimmed block itself.
\<close>

theorem synthetic_chunk_fallback:
  "(is_repetition_loop txt \<longrightarrow> fst (parse_whisper_output txt) = []) \<and>
   (\<not> is_repetition_loop txt \<longrightarrow> timed_chunks (tl (re_split txt)) \<noteq> [] \<longrightarrow>
      fst (parse_whisper_output txt) = timed_chunks (tl (re_split txt))) \<and>
   (\<not> is_repetition_loop txt \<longrightarrow> timed_chunks (tl (re_split txt)) = [] \<longrightarrow>
      fst (parse_whisper_output txt) =
        (let clean_text = py_strip (strip_tokens txt) in
         if clean_text \<noteq> [] \<and> length clean_text < 200
         then [\<lparr>timestamp = (0.0, 2.0), ctext = clean_text\<rparr>] else [])) \<and>
   (\<not> is_repetition_loop txt \<longrightarrow> \<not> contains txt ''<|'' \<longrightarrow>
      fst (parse_whisper_output txt) =
        (if py_strip txt \<noteq> [] \<and> length (py_strip txt) < 200
         then [\<lparr>timestamp = (0.0, 2.0), ctext = py_strip txt\<rparr>] else []))"
proof (intro conjI impI)
  assume "is_repetition_loop txt"
  then show "fst (parse_whisper_output txt) = []"
    by (simp add: parse_whisper_output_def)
next
  assume "\<not> is_repetition_loop txt" and "timed_chunks (tl (re_split txt)) \<noteq> []"
  then show "fst (parse_whisper_output txt) = timed_chunks (tl (re_split txt))"
    by (simp add: parse_whisper_output_def Let_def)
next
  assume "\<not> is_repetition_loop txt" and "timed_chunks (tl (re_split txt)) = []"
  then show "fst (parse_whisper_output txt) =
        (let clean_text = py_strip (strip_tokens txt) in
         if clean_text \<noteq> [] \<and> length clean_text < 200
         then [\<lparr>timestamp = (0.0, 2.0), ctext = clean_text\<rparr>] else [])"
    by (simp add: parse_whisper_output_def Let_def)
next
  assume l: "\<not> is_repetition_loop txt" and n: "\<not> contains txt ''<|''"
  from n have "re_split txt = [txt]" "strip_tokens txt = txt"
    by (simp_all add: re_split_def re_split_from_no_marker strip_tokens_no_marker)
  with l show "fst (parse_whisper_output txt) =
        (if py_strip txt \<noteq> [] \<and> length (py_strip txt) < 200
         then [\<lparr>timestamp = (0.0, 2.0), ctext = py_strip txt\<rparr>] else [])"
    by (simp add: parse_whisper_output_def Let_def)
qed

theorem synthetic_chunk_fallback_witness:
  "is_repetition_loop ''hi hi hi hi hi hi hi hi hi hi hi'' \<and>
   fst (parse_whisper_output ''hi hi hi hi hi hi hi hi hi hi hi'') = [] \<and>
   \<not> is_repetition_loop ''<|0.00|> hello world<|2.50|>'' \<and>
   timed_chunks (tl (re_split ''<|0.00|> hello world<|2.50|>'')) \<noteq> [] \<and>
   fst (parse_whisper_output ''<|0.00|> hello world<|2.50|>'') =
     [\<lparr>timestamp = (0, 2.5), ctext = ''hello world''\<rparr>] \<and>
   \<not> is_repetition_loop ''<|0.00|>.<|2.00|>'' \<and>
   timed_chunks (tl (re_split ''<|0.00|>.<|2.00|>'')) = [] \<and>
   fst (parse_whisper_output ''<|0.00|>.<|2.00|>'') = [\<lparr>timestamp = (0, 2), ctext = ''.''\<rparr>] \<and>
   \<not> is_repetition_loop '' merhaba '' \<and> \<not> contains '' merhaba '' ''<|'' \<and>
   fst (parse_whisper_output '' merhaba '') = [\<lparr>timestamp = (0, 2), ctext = ''merhaba''\<rparr>]"
proof -
  have l1: "is_repetition_loop ''hi hi hi hi hi hi hi hi hi hi hi''"
    by (simp add: is_repetition_loop_def py_split_def is_space_def)
  have l2: "\<not> is_repetition_loop ''<|0.00|> hello world<|2.50|>''"
    by (simp add: is_repetition_loop_def py_split_def is_space_def)
  have s2: "re_split ''<|0.00|> hello world<|2.50|>'' = ['''', ''0.00'', '' hello world'', ''2.50'', '''']"
    by (simp add: re_split_def match_timestamp_def is_digit_def)
  have t2: "timed_chunks (tl (re_split ''<|0.00|> hello world<|2.50|>'')) =
      [\<lparr>timestamp = (0, 2.5), ctext = ''hello world''\<rparr>]"
    unfolding s2
    by (simp add: py_float_def is_digit_def nat_of_digits_def py_strip_def is_space_def
        py_split_def)
  have l3: "\<not> is_repetition_loop ''<|0.00|>.<|2.00|>''"
    by (simp add: is_repetition_loop_def py_split_def is_space_def)
  have s3: "re_split ''<|0.00|>.<|2.00|>'' = ['''', ''0.00'', ''.'', ''2.00'', '''']"
    by (simp add: re_split_def match_timestamp_def is_digit_def)
  have t3: "timed_chunks (tl (re_split ''<|0.00|>.<|2.00|>'')) = []"
    unfolding s3
    by (simp add: py_float_def is_digit_def nat_of_digits_def py_strip_def is_space_def)
  have c3: "py_strip (strip_tokens ''<|0.00|>.<|2.00|>'') = ''.''"
    by (simp add: py_strip_def is_space_def)
  have l4: "\<not> is_repetition_loop '' merhaba ''"
    by (simp add: is_repetition_loop_def py_split_def is_space_def)
  have n4: "\<not> contains '' merhaba '' ''<|''" by simp
  have c4: "py_strip '' merhaba '' = ''merhaba''"
    by (simp add: py_strip_def is_space_def)
  from synthetic_chunk_fallback [of "''hi hi hi hi hi hi hi hi hi hi hi''"] l1
  have 1: "fst (parse_whisper_output ''hi hi hi hi hi hi hi hi hi hi hi'') = []" by blast
  from synthetic_chunk_fallback [of "''<|0.00|> hello world<|2.50|>''"] l2 t2
  have 2: "fst (parse_whisper_output ''<|0.00|> hello world<|2.50|>'') =
     [\<lparr>timestamp = (0, 2.5), ctext = ''hello world''\<rparr>]" by simp
  from synthetic_chunk_fallback [of "''<|0.00|>.<|2.00|>''"] l3 t3 c3
  have 3: "fst (parse_whisper_output ''<|0.00|>.<|2.00|>'') = [\<lparr>timestamp = (0, 2), ctext = ''.''\<rparr>]"
    by simp
  from synthetic_chunk_fallback [of "'' merhaba ''"] l4 n4 c4
  have 4: "fst (parse_whisper_output '' merhaba '') = [\<lparr>timestamp = (0, 2), ctext = ''merhaba''\<rparr>]"
    by simp
  from l1 1 l2 t2 2 l3 t3 3 l4 n4 4 show ?thesis by simp
qed

text \<open>
  The synthetic chunk is not emitted exactly when no marker was parsed: a short block
  without markers that is a repetition loop yields nothing, and a block whose markers
  were parsed but whose only sub-chunk has no duration yields the synthetic chunk.
\<close>

theorem synthetic_chunk_counterexample:
  "re_split ''hi hi hi hi hi hi hi hi hi hi hi'' = [''hi hi hi hi hi hi hi hi hi hi hi''] \<and>
   py_strip (strip_tokens ''hi hi hi hi hi hi hi hi hi hi hi'') \<noteq> [] \<and>
   length (py_strip (strip_tokens ''hi hi hi hi hi hi hi hi hi hi hi'')) < 200 \<and>
   fst (parse_whisper_output ''hi hi hi hi hi hi hi hi hi hi hi'') = [] \<and>
   re_split ''<|0.00|>hello<|0.00|>'' = ['''', ''0.00'', ''hello'', ''0.00'', ''''] \<and>
   fst (parse_whisper_output ''<|0.00|>hello<|0.00|>'') =
     [\<lparr>timestamp = (0.0, 2.0), ctext = ''hello''\<rparr>]"
proof (intro conjI)
  show "re_split ''hi hi hi hi hi hi hi hi hi hi hi'' = [''hi hi hi hi hi hi hi hi hi hi hi'']"
    by (simp add: re_split_def match_timestamp_def)
  show "py_strip (strip_tokens ''hi hi hi hi hi hi hi hi hi hi hi'') \<noteq> []"
    by (simp add: py_strip_def is_space_def)
  show "length (py_strip (strip_tokens ''hi hi hi hi hi hi hi hi hi hi hi'')) < 200"
    by (simp add: py_strip_def is_space_def)
  show "fst (parse_whisper_output ''hi hi hi hi hi hi hi hi hi hi hi'') = []"
    by (simp add: parse_whisper_output_def is_repetition_loop_def py_split_def is_space_def)
  show s: "re_split ''<|0.00|>hello<|0.00|>'' = ['''', ''0.00'', ''hello'', ''0.00'', '''']"
    by (simp add: re_split_def match_timestamp_def is_digit_def)
  show "fst (parse_whisper_output ''<|0.00|>hello<|0.00|>'') =
     [\<lparr>timestamp = (0.0, 2.0), ctext = ''hello''\<rparr>]"
    by (simp add: parse_whisper_output_def s is_repetition_loop_def py_split_def is_space_def
     py_float_def is_digit_def nat_of_digits_def py_strip_def)
qed

subsection \<open>Diarization smoother\<close>
























subsection \<open>Redundancy remover\<close>

text \<open>
  One step either leaves the accepted list as it is or appends the current segment,
  possibly with its start moved to the end of the last accepted one.
\<close>

lemma remove_step_cases:
  "remove_step cleaned current = cleaned \<or>
   (\<exists>c'. remove_step cleaned current = cleaned @ [c'] \<and>
         endt c' - start c' > 0.1 \<and>
         endt c' = endt current \<and> start current \<le> start c' \<and>
         speaker c' = speaker current \<and>
         (endt (last cleaned) \<le> start c' \<or>
          min (endt (last cleaned)) (endt c') - max (start (last cleaned)) (start c') \<ge> 1.0))"
proof -
  let ?prev = "last cleaned"
  let ?od = "max 0 (min (endt ?prev) (endt current) - max (start ?prev) (start current))"
  let ?c' = "if start current < endt ?prev \<and> ?od < 1.0
             then current\<lparr>start := endt ?prev\<rparr> else current"
  have r: "remove_step cleaned current = cleaned \<or>
           (remove_step cleaned current = cleaned @ [?c'] \<and> endt ?c' - start ?c' > 0.1)"
    by (simp add: remove_step_def Let_def)
  have p: "endt ?c' = endt current \<and> start current \<le> start ?c' \<and> speaker ?c' = speaker current \<and>
         (endt ?prev \<le> start ?c' \<or>
          min (endt ?prev) (endt ?c') - max (start ?prev) (start ?c') \<ge> 1.0)"
    by (cases "start current < endt ?prev \<and> ?od < 1.0") auto
  from r p show ?thesis by blast
qed

lemma foldl_remove_step:
  "\<exists>ext. foldl remove_step acc rest = acc @ ext \<and>
     list_all (\<lambda>c. endt c - start c > 0.1) ext \<and>
     length ext \<le> length rest \<and>
     set (map speaker ext) \<subseteq> set (map speaker rest) \<and>
     (acc \<noteq> [] \<longrightarrow>
      successively (\<lambda>a b. endt a \<le> start b \<or>
          min (endt a) (endt b) - max (start a) (start b) \<ge> 1.0) acc \<longrightarrow>
      successively (\<lambda>a b. endt a \<le> start b \<or>
          min (endt a) (endt b) - max (start a) (start b) \<ge> 1.0) (acc @ ext)) \<and>
     (list_all (\<lambda>c. endt c - start c \<ge> 0) rest \<longrightarrow>
        (\<Sum>r\<leftarrow>ext. endt r - start r) \<le> (\<Sum>r\<leftarrow>rest. endt r - start r))"
proof (induction rest arbitrary: acc)
  case Nil
  show ?case by simp
next
  case (Cons cur rest)
  let ?Q = "\<lambda>a b. endt a \<le> start b \<or> min (endt a) (endt b) - max (start a) (start b) \<ge> 1.0"
  from remove_step_cases [of acc cur] consider
    (drop) "remove_step acc cur = acc" |
    (keep) c' where "remove_step acc cur = acc @ [c']" "endt c' - start c' > 0.1"
      "endt c' = endt cur" "start cur \<le> start c'" "speaker c' = speaker cur"
      "endt (last acc) \<le> start c' \<or>
          min (endt (last acc)) (endt c') - max (start (last acc)) (start c') \<ge> 1.0"
    by blast
  then show ?case
  proof cases
    case drop
    then have eq: "remove_step acc cur = acc" .
    from Cons.IH [of acc] obtain ext where
      e: "foldl remove_step acc rest = acc @ ext"
        "list_all (\<lambda>c. endt c - start c > 0.1) ext" "length ext \<le> length rest"
        "set (map speaker ext) \<subseteq> set (map speaker rest)"
        "acc \<noteq> [] \<longrightarrow> successively ?Q acc \<longrightarrow> successively ?Q (acc @ ext)"
        "list_all (\<lambda>c. endt c - start c \<ge> 0) rest \<longrightarrow>
           (\<Sum>r\<leftarrow>ext. endt r - start r) \<le> (\<Sum>r\<leftarrow>rest. endt r - start r)"
      by blast
    have "foldl remove_step acc (cur # rest) = acc @ ext" using eq e(1) by simp
    moreover have "length ext \<le> length (cur # rest)" using e(3) by simp
    moreover have "set (map speaker ext) \<subseteq> set (map speaker (cur # rest))" using e(4) by auto
    moreover have "list_all (\<lambda>c. endt c - start c \<ge> 0) (cur # rest) \<longrightarrow>
           (\<Sum>r\<leftarrow>ext. endt r - start r) \<le> (\<Sum>r\<leftarrow>cur # rest. endt r - start r)"
      using e(6) by auto
    ultimately show ?thesis using e(2) e(5) by blast
  next
    case keep
    then have eq: "remove_step acc cur = acc @ [c']"
      and d: "endt c' - start c' > 0.1"
      and en: "endt c' = endt cur" and st: "start cur \<le> start c'"
      and sp: "speaker c' = speaker cur"
      and q: "endt (last acc) \<le> start c' \<or>
          min (endt (last acc)) (endt c') - max (start (last acc)) (start c') \<ge> 1.0"
      by blast+
    from Cons.IH [of "acc @ [c']"] obtain ext where
      e: "foldl remove_step (acc @ [c']) rest = (acc @ [c']) @ ext"
        "list_all (\<lambda>c. endt c - start c > 0.1) ext" "length ext \<le> length rest"
        "set (map speaker ext) \<subseteq> set (map speaker rest)"
        "acc @ [c'] \<noteq> [] \<longrightarrow> successively ?Q (acc @ [c']) \<longrightarrow>
           successively ?Q ((acc @ [c']) @ ext)"
        "list_all (\<lambda>c. endt c - start c \<ge> 0) rest \<longrightarrow>
           (\<Sum>r\<leftarrow>ext. endt r - start r) \<le> (\<Sum>r\<leftarrow>rest. endt r - start r)"
      by blast
    have 1: "foldl remove_step acc (cur # rest) = acc @ (c' # ext)" using eq e(1) by simp
    have 2: "list_all (\<lambda>c. endt c - start c > 0.1) (c' # ext)" using d e(2) by simp
    have 3: "length (c' # ext) \<le> length (cur # rest)" using e(3) by simp
    have 4: "set (map speaker (c' # ext)) \<subseteq> set (map speaker (cur # rest))"
      using e(4) sp by auto
    have 5: "acc \<noteq> [] \<longrightarrow> successively ?Q acc \<longrightarrow> successively ?Q (acc @ (c' # ext))"
    proof (intro impI)
      assume ne: "acc \<noteq> []" and s: "successively ?Q acc"
      from s q ne have "successively ?Q (acc @ [c'])"
        by (simp add: successively_append_iff)
      with e(5) show "successively ?Q (acc @ (c' # ext))" by simp
    qed
    have 6: "list_all (\<lambda>c. endt c - start c \<ge> 0) (cur # rest) \<longrightarrow>
           (\<Sum>r\<leftarrow>c' # ext. endt r - start r) \<le> (\<Sum>r\<leftarrow>cur # rest. endt r - start r)"
      using e(6) en st by auto
    from 1 2 3 4 5 6 show ?thesis by blast
  qed
qed

lemma remove_redundant_segments_Cons:
  "\<exists>ext. remove_redundant_segments (s # rest) = s # ext \<and>
     list_all (\<lambda>c. endt c - start c > 0.1) ext \<and>
     length ext \<le> length rest \<and>
     set (map speaker ext) \<subseteq> set (map speaker rest) \<and>
     successively (\<lambda>a b. endt a \<le> start b \<or>
          min (endt a) (endt b) - max (start a) (start b) \<ge> 1.0) (s # ext) \<and>
     (list_all (\<lambda>c. endt c - start c \<ge> 0) rest \<longrightarrow>
        (\<Sum>r\<leftarrow>ext. endt r - start r) \<le> (\<Sum>r\<leftarrow>rest. endt r - start r))"
  using foldl_remove_step [of "[s]" rest]
  by (auto simp: remove_redundant_segments_def)

text \<open>
  Claim C8. Every segment of the output but the first lasts more than 0.1 seconds. The
  first input segment is accepted without the test: a list of one segment of 0.04 seconds
  is returned as it is.
\<close>

theorem first_segment_kept:
  "remove_redundant_segments
     [\<lparr>start = 0, endt = 0.04, speaker = ''SPEAKER_00'', rtext = ''x''\<rparr>] =
     [\<lparr>start = 0, endt = 0.04, speaker = ''SPEAKER_00'', rtext = ''x''\<rparr>] \<and>
   \<not> list_all (\<lambda>c. endt c - start c > 0.1)
      (remove_redundant_segments
         [\<lparr>start = 0, endt = 0.04, speaker = ''SPEAKER_00'', rtext = ''x''\<rparr>]) \<and>
   list_all (\<lambda>c. endt c - start c > 0.1) (tl (remove_redundant_segments segments))"
proof (intro conjI)
  show "list_all (\<lambda>c. endt c - start c > 0.1) (tl (remove_redundant_segments segments))"
  proof (cases segments)
    case Nil
    then show ?thesis by (simp add: remove_redundant_segments_def)
  next
    case (Cons s rest)
    with remove_redundant_segments_Cons [of s rest] show ?thesis by auto
  qed
qed (simp_all add: remove_redundant_segments_def)

subsection \<open>Turn merger\<close>

lemma turn_step_cases:
  "turn_step (m, c) n =
     (if speaker c = speaker n \<and> start n - endt c < 2.0
      then (m, c\<lparr>rtext := rtext c @ '' '' @ rtext n, endt := max (endt c) (endt n)\<rparr>)
      else (m @ [c], n))"
  by (simp add: turn_step_def Let_def)

lemma turn_step_separated:
  assumes "successively (\<lambda>a b. \<not> (speaker a = speaker b \<and> start b - endt a < 2.0)) (m @ [c])"
  shows "case turn_step (m, c) n of (m', c') \<Rightarrow>
           successively (\<lambda>a b. \<not> (speaker a = speaker b \<and> start b - endt a < 2.0)) (m' @ [c'])"
proof (cases "speaker c = speaker n \<and> start n - endt c < 2.0")
  case True
  with assms show ?thesis
    by (simp add: turn_step_cases successively_append_iff)
next
  case False
  with assms show ?thesis
    by (auto simp: turn_step_cases successively_append_iff)
qed

lemma foldl_turn_step_separated:
  "successively (\<lambda>a b. \<not> (speaker a = speaker b \<and> start b - endt a < 2.0)) (fst st @ [snd st]) \<Longrightarrow>
   successively (\<lambda>a b. \<not> (speaker a = speaker b \<and> start b - endt a < 2.0))
     (fst (foldl turn_step st rest) @ [snd (foldl turn_step st rest)])"
proof (induction rest arbitrary: st)
  case Nil
  then show ?case by simp
next
  case (Cons n rest)
  obtain m c where st: "st = (m, c)" by (cases st)
  obtain m' c' where s': "turn_step (m, c) n = (m', c')" by (cases "turn_step (m, c) n")
  from Cons.prems st turn_step_separated [of m c n] s'
  have "successively (\<lambda>a b. \<not> (speaker a = speaker b \<and> start b - endt a < 2.0)) (m' @ [c'])"
    by simp
  with Cons.IH [of "(m', c')"] st s' show ?case by simp
qed

lemma merge_consecutive_speakers_separated:
  "successively (\<lambda>a b. \<not> (speaker a = speaker b \<and> start b - endt a < 2.0))
     (merge_consecutive_speakers results)"
proof (cases results)
  case Nil
  then show ?thesis by (simp add: merge_consecutive_speakers_def)
next
  case (Cons r rest)
  from foldl_turn_step_separated [of "([], r)" rest]
  show ?thesis
    by (simp add: merge_consecutive_speakers_def Cons case_prod_beta)
qed

lemma foldl_turn_step_fixed:
  "successively (\<lambda>a b. \<not> (speaker a = speaker b \<and> start b - endt a < 2.0)) (c # rest) \<Longrightarrow>
   foldl turn_step (m, c) rest = (m @ butlast (c # rest), last (c # rest))"
proof (induction rest arbitrary: m c)
  case Nil
  show ?case by simp
next
  case (Cons n rest)
  from Cons.prems have sep: "\<not> (speaker c = speaker n \<and> start n - endt c < 2.0)"
    and tl: "successively (\<lambda>a b. \<not> (speaker a = speaker b \<and> start b - endt a < 2.0)) (n # rest)"
    by simp_all
  from sep have "turn_step (m, c) n = (m @ [c], n)"
    by (auto simp: turn_step_cases)
  with Cons.IH [OF tl, of "m @ [c]"] show ?case by simp
qed

lemma merge_consecutive_speakers_fixed:
  "successively (\<lambda>a b. \<not> (speaker a = speaker b \<and> start b - endt a < 2.0)) results \<Longrightarrow>
   merge_consecutive_speakers results = results"
proof (cases results)
  case Nil
  then show ?thesis by (simp add: merge_consecutive_speakers_def)
next
  case (Cons r rest)
  assume "successively (\<lambda>a b. \<not> (speaker a = speaker b \<and> start b - endt a < 2.0)) results"
  with Cons foldl_turn_step_fixed [of r rest "[]"]
  show ?thesis
    by (simp add: merge_consecutive_speakers_def del: butlast.simps last.simps)
qed

text \<open>
  Claim C10. In the output of the turn merger, consecutive segments of the same speaker
  are at least 2.0 seconds apart (the start of the next minus the end of the current),
  and merging the output again changes nothing.
\<close>

theorem turns_exhaustive:
  "(\<forall>i. Suc i < length (merge_consecutive_speakers results) \<longrightarrow>
        speaker (merge_consecutive_speakers results ! i) =
          speaker (merge_consecutive_speakers results ! Suc i) \<longrightarrow>
        start (merge_consecutive_speakers results ! Suc i) -
          endt (merge_consecutive_speakers results ! i) \<ge> 2.0) \<and>
   merge_consecutive_speakers (merge_consecutive_speakers results) =
     merge_consecutive_speakers results"
proof
  have sep: "successively (\<lambda>a b. \<not> (speaker a = speaker b \<and> start b - endt a < 2.0))
     (merge_consecutive_speakers results)"
    by (rule merge_consecutive_speakers_separated)
  show "\<forall>i. Suc i < length (merge_consecutive_speakers results) \<longrightarrow>
        speaker (merge_consecutive_speakers results ! i) =
          speaker (merge_consecutive_speakers results ! Suc i) \<longrightarrow>
        start (merge_consecutive_speakers results ! Suc i) -
          endt (merge_consecutive_speakers results ! i) \<ge> 2.0"
  proof (intro allI impI)
    fix i
    assume "Suc i < length (merge_consecutive_speakers results)"
      and "speaker (merge_consecutive_speakers results ! i) =
          speaker (merge_consecutive_speakers results ! Suc i)"
    with successively_nth [OF sep, of i]
    show "start (merge_consecutive_speakers results ! Suc i) -
          endt (merge_consecutive_speakers results ! i) \<ge> 2.0"
      by simp
  qed
  show "merge_consecutive_speakers (merge_consecutive_speakers results) =
     merge_consecutive_speakers results"
    by (rule merge_consecutive_speakers_fixed [OF sep])
qed

theorem turns_exhaustive_witness:
  "Suc 0 < length (merge_consecutive_speakers
     [\<lparr>start = 0, endt = 1, speaker = ''A'', rtext = ''a''\<rparr>,
      \<lparr>start = 1.5, endt = 3, speaker = ''A'', rtext = ''b''\<rparr>,
      \<lparr>start = 6, endt = 7, speaker = ''A'', rtext = ''c''\<rparr>,
      \<lparr>start = 7, endt = 8, speaker = ''B'', rtext = ''d''\<rparr>]) \<and>
   speaker (merge_consecutive_speakers
     [\<lparr>start = 0, endt = 1, speaker = ''A'', rtext = ''a''\<rparr>,
      \<lparr>start = 1.5, endt = 3, speaker = ''A'', rtext = ''b''\<rparr>,
      \<lparr>start = 6, endt = 7, speaker = ''A'', rtext = ''c''\<rparr>,
      \<lparr>start = 7, endt = 8, speaker = ''B'', rtext = ''d''\<rparr>] ! 0) =
   speaker (merge_consecutive_speakers
     [\<lparr>start = 0, endt = 1, speaker = ''A'', rtext = ''a''\<rparr>,
      \<lparr>start = 1.5, endt = 3, speaker = ''A'', rtext = ''b''\<rparr>,
      \<lparr>start = 6, endt = 7, speaker = ''A'', rtext = ''c''\<rparr>,
      \<lparr>start = 7, endt = 8, speaker = ''B'', rtext = ''d''\<rparr>] ! Suc 0) \<and>
   start (merge_consecutive_speakers
     [\<lparr>start = 0, endt = 1, speaker = ''A'', rtext = ''a''\<rparr>,
      \<lparr>start = 1.5, endt = 3, speaker = ''A'', rtext = ''b''\<rparr>,
      \<lparr>start = 6, endt = 7, speaker = ''A'', rtext = ''c''\<rparr>,
      \<lparr>start = 7, endt = 8, speaker = ''B'', rtext = ''d''\<rparr>] ! Suc 0) -
   endt (merge_consecutive_speakers
     [\<lparr>start = 0, endt = 1, speaker = ''A'', rtext = ''a''\<rparr>,
      \<lparr>start = 1.5, endt = 3, speaker = ''A'', rtext = ''b''\<rparr>,
      \<lparr>start = 6, endt = 7, speaker = ''A'', rtext = ''c''\<rparr>,
      \<lparr>start = 7, endt = 8, speaker = ''B'', rtext = ''d''\<rparr>] ! 0) \<ge> 2.0 \<and>
   merge_consecutive_speakers (merge_consecutive_speakers
     [\<lparr>start = 0, endt = 1, speaker = ''A'', rtext = ''a''\<rparr>,
      \<lparr>start = 1.5, endt = 3, speaker = ''A'', rtext = ''b''\<rparr>,
      \<lparr>start = 6, endt = 7, speaker = ''A'', rtext = ''c''\<rparr>,
      \<lparr>start = 7, endt = 8, speaker = ''B'', rtext = ''d''\<rparr>]) =
   [\<lparr>start = 0, endt = 3, speaker = ''A'', rtext = ''a b''\<rparr>,
    \<lparr>start = 6, endt = 7, speaker = ''A'', rtext = ''c''\<rparr>,
    \<lparr>start = 7, endt = 8, speaker = ''B'', rtext = ''d''\<rparr>]"
proof -
  let ?xs = "[\<lparr>start = 0, endt = 1, speaker = ''A'', rtext = ''a''\<rparr>,
      \<lparr>start = 1.5, endt = 3, speaker = ''A'', rtext = ''b''\<rparr>,
      \<lparr>start = 6, endt = 7, speaker = ''A'', rtext = ''c''\<rparr>,
      \<lparr>start = 7, endt = 8, speaker = ''B'', rtext = ''d''\<rparr>]"
  have e: "merge_consecutive_speakers ?xs =
   [\<lparr>start = 0, endt = 3, speaker = ''A'', rtext = ''a b''\<rparr>,
    \<lparr>start = 6, endt = 7, speaker = ''A'', rtext = ''c''\<rparr>,
    \<lparr>start = 7, endt = 8, speaker = ''B'', rtext = ''d''\<rparr>]"
    by (simp add: merge_consecutive_speakers_def turn_step_def)
  have h: "Suc 0 < length (merge_consecutive_speakers ?xs)"
    "speaker (merge_consecutive_speakers ?xs ! 0) = speaker (merge_consecutive_speakers ?xs ! Suc 0)"
    unfolding e by simp_all
  from turns_exhaustive [of ?xs] have
    a: "\<forall>i. Suc i < length (merge_consecutive_speakers ?xs) \<longrightarrow>
        speaker (merge_consecutive_speakers ?xs ! i) =
          speaker (merge_consecutive_speakers ?xs ! Suc i) \<longrightarrow>
        start (merge_consecutive_speakers ?xs ! Suc i) -
          endt (merge_consecutive_speakers ?xs ! i) \<ge> 2.0"
    and b: "merge_consecutive_speakers (merge_consecutive_speakers ?xs) =
      merge_consecutive_speakers ?xs" by blast+
  from a h have "start (merge_consecutive_speakers ?xs ! Suc 0) -
          endt (merge_consecutive_speakers ?xs ! 0) \<ge> 2.0" by blast
  with h b show ?thesis unfolding e by simp
qed

subsection \<open>The pipeline\<close>

lemma remove_redundant_segments_overlaps:
  "successively (\<lambda>a b. endt a \<le> start b \<or>
      min (endt a) (endt b) - max (start a) (start b) \<ge> 1.0)
     (remove_redundant_segments segments)"
proof (cases segments)
  case Nil
  then show ?thesis by (simp add: remove_redundant_segments_def)
next
  case (Cons s rest)
  with remove_redundant_segments_Cons [of s rest] show ?thesis by auto
qed

text \<open>
  Claim C2, as the code has it. The remover moves the start of a segment to the end of the
  previous one only when the two overlap by less than one second; longer overlaps stay.
  So, for consecutive segments of the remover's output, the next starts at or after the
  end of the previous, or the two overlap by at least 1.0 seconds. In the final output,
  consecutive segments of the same speaker never overlap (the next starts at least 2.0
  seconds after the previous ends); those of different speakers can.
\<close>

theorem overlap_only_when_large:
  "(\<forall>i. Suc i < length (remove_redundant_segments segments) \<longrightarrow>
        endt (remove_redundant_segments segments ! i) \<le>
          start (remove_redundant_segments segments ! Suc i) \<or>
        min (endt (remove_redundant_segments segments ! i))
            (endt (remove_redundant_segments segments ! Suc i)) -
        max (start (remove_redundant_segments segments ! i))
            (start (remove_redundant_segments segments ! Suc i)) \<ge> 1.0) \<and>
   (\<forall>i. Suc i < length (process_with_speakers all_chunks raw_annotation) \<longrightarrow>
        speaker (process_with_speakers all_chunks raw_annotation ! i) =
          speaker (process_with_speakers all_chunks raw_annotation ! Suc i) \<longrightarrow>
        endt (process_with_speakers all_chunks raw_annotation ! i) + 2.0 \<le>
          start (process_with_speakers all_chunks raw_annotation ! Suc i))"
proof (intro conjI allI impI)
  fix i
  assume "Suc i < length (remove_redundant_segments segments)"
  with successively_nth [OF remove_redundant_segments_overlaps, of i segments]
  show "endt (remove_redundant_segments segments ! i) \<le>
          start (remove_redundant_segments segments ! Suc i) \<or>
        min (endt (remove_redundant_segments segments ! i))
            (endt (remove_redundant_segments segments ! Suc i)) -
        max (start (remove_redundant_segments segments ! i))
            (start (remove_redundant_segments segments ! Suc i)) \<ge> 1.0"
    by simp
next
  fix i
  let ?cleaned = "remove_redundant_segments (sort_key start
      (align_whisper_with_diarization (merge_overlapping_chunks all_chunks)
         (post_process_diarization raw_annotation)))"
  have p: "process_with_speakers all_chunks raw_annotation = merge_consecutive_speakers ?cleaned"
    by (simp add: process_with_speakers_def)
  assume "Suc i < length (process_with_speakers all_chunks raw_annotation)"
    and "speaker (process_with_speakers all_chunks raw_annotation ! i) =
          speaker (process_with_speakers all_chunks raw_annotation ! Suc i)"
  with successively_nth [OF merge_consecutive_speakers_separated, of i ?cleaned]
  show "endt (process_with_speakers all_chunks raw_annotation ! i) + 2.0 \<le>
          start (process_with_speakers all_chunks raw_annotation ! Suc i)"
    unfolding p by simp
qed

theorem overlap_only_when_large_witness:
  "Suc (Suc 0) < length (remove_redundant_segments
     [\<lparr>start = 0, endt = 10, speaker = ''A'', rtext = ''one''\<rparr>,
      \<lparr>start = 9.5, endt = 20, speaker = ''B'', rtext = ''two''\<rparr>,
      \<lparr>start = 15, endt = 30, speaker = ''A'', rtext = ''three''\<rparr>]) \<and>
   (endt (remove_redundant_segments
     [\<lparr>start = 0, endt = 10, speaker = ''A'', rtext = ''one''\<rparr>,
      \<lparr>start = 9.5, endt = 20, speaker = ''B'', rtext = ''two''\<rparr>,
      \<lparr>start = 15, endt = 30, speaker = ''A'', rtext = ''three''\<rparr>] ! Suc 0) \<le>
    start (remove_redundant_segments
     [\<lparr>start = 0, endt = 10, speaker = ''A'', rtext = ''one''\<rparr>,
      \<lparr>start = 9.5, endt = 20, speaker = ''B'', rtext = ''two''\<rparr>,
      \<lparr>start = 15, endt = 30, speaker = ''A'', rtext = ''three''\<rparr>] ! Suc (Suc 0)) \<or>
    min (endt (remove_redundant_segments
     [\<lparr>start = 0, endt = 10, speaker = ''A'', rtext = ''one''\<rparr>,
      \<lparr>start = 9.5, endt = 20, speaker = ''B'', rtext = ''two''\<rparr>,
      \<lparr>start = 15, endt = 30, speaker = ''A'', rtext = ''three''\<rparr>] ! Suc 0))
        (endt (remove_redundant_segments
     [\<lparr>start = 0, endt = 10, speaker = ''A'', rtext = ''one''\<rparr>,
      \<lparr>start = 9.5, endt = 20, speaker = ''B'', rtext = ''two''\<rparr>,
      \<lparr>start = 15, endt = 30, speaker = ''A'', rtext = ''three''\<rparr>] ! Suc (Suc 0))) -
    max (start (remove_redundant_segments
     [\<lparr>start = 0, endt = 10, speaker = ''A'', rtext = ''one''\<rparr>,
      \<lparr>start = 9.5, endt = 20, speaker = ''B'', rtext = ''two''\<rparr>,
      \<lparr>start = 15, endt = 30, speaker = ''A'', rtext = ''three''\<rparr>] ! Suc 0))
        (start (remove_redundant_segments
     [\<lparr>start = 0, endt = 10, speaker = ''A'', rtext = ''one''\<rparr>,
      \<lparr>start = 9.5, endt = 20, speaker = ''B'', rtext = ''two''\<rparr>,
      \<lparr>start = 15, endt = 30, speaker = ''A'', rtext = ''three''\<rparr>] ! Suc (Suc 0))) \<ge> 1.0) \<and>
   Suc 0 < length (process_with_speakers
     [\<lparr>timestamp = (0, 1), ctext = ''a''\<rparr>, \<lparr>timestamp = (5, 6), ctext = ''b''\<rparr>]
     [\<lparr>start = 0, endt = 10, speaker = ''SPEAKER_00''\<rparr>]) \<and>
   speaker (process_with_speakers
     [\<lparr>timestamp = (0, 1), ctext = ''a''\<rparr>, \<lparr>timestamp = (5, 6), ctext = ''b''\<rparr>]
     [\<lparr>start = 0, endt = 10, speaker = ''SPEAKER_00''\<rparr>] ! 0) =
   speaker (process_with_speakers
     [\<lparr>timestamp = (0, 1), ctext = ''a''\<rparr>, \<lparr>timestamp = (5, 6), ctext = ''b''\<rparr>]
     [\<lparr>start = 0, endt = 10, speaker = ''SPEAKER_00''\<rparr>] ! Suc 0) \<and>
   endt (process_with_speakers
     [\<lparr>timestamp = (0, 1), ctext = ''a''\<rparr>, \<lparr>timestamp = (5, 6), ctext = ''b''\<rparr>]
     [\<lparr>start = 0, endt = 10, speaker = ''SPEAKER_00''\<rparr>] ! 0) + 2.0 \<le>
   start (process_with_speakers
     [\<lparr>timestamp = (0, 1), ctext = ''a''\<rparr>, \<lparr>timestamp = (5, 6), ctext = ''b''\<rparr>]
     [\<lparr>start = 0, endt = 10, speaker = ''SPEAKER_00''\<rparr>] ! Suc 0)"
proof -
  let ?segs = "[\<lparr>start = 0, endt = 10, speaker = ''A'', rtext = ''one''\<rparr>,
      \<lparr>start = 9.5, endt = 20, speaker = ''B'', rtext = ''two''\<rparr>,
      \<lparr>start = 15, endt = 30, speaker = ''A'', rtext = ''three''\<rparr>]"
  let ?cs = "[\<lparr>timestamp = (0, 1), ctext = ''a''\<rparr>, \<lparr>timestamp = (5, 6), ctext = ''b''\<rparr>]"
  let ?raw = "[\<lparr>start = 0, endt = 10, speaker = ''SPEAKER_00''\<rparr>]"
  have l: "length (remove_redundant_segments ?segs) = 3"
    by (simp add: remove_redundant_segments_def remove_step_def)
  have p: "process_with_speakers ?cs ?raw =
      [\<lparr>start = 0, endt = 1, speaker = ''SPEAKER_00'', rtext = ''a''\<rparr>,
       \<lparr>start = 5, endt = 6, speaker = ''SPEAKER_00'', rtext = ''b''\<rparr>]"
    by (simp add: process_with_speakers_def post_process_diarization_def
      annotation_setitem_def segment_bool_def
      merge_overlapping_chunks_def merge_chunk_def align_whisper_with_diarization_def
      align_chunk_def overlap_stats_of_def remove_redundant_segments_def remove_step_def
      merge_consecutive_speakers_def turn_step_def)
  have h: "Suc 0 < length (process_with_speakers ?cs ?raw)"
    "speaker (process_with_speakers ?cs ?raw ! 0) = speaker (process_with_speakers ?cs ?raw ! Suc 0)"
    by (simp_all add: p)
  from overlap_only_when_large [of ?segs ?cs ?raw] l h show ?thesis
    by (simp only: numeral_3_eq_3 lessI) 
qed

text \<open>Two distinct segments of the final output that overlap by five seconds.\<close>

theorem pipeline_overlap_counterexample:
  "process_with_speakers
     [\<lparr>timestamp = (0, 10), ctext = ''a''\<rparr>, \<lparr>timestamp = (5, 15), ctext = ''b''\<rparr>]
     [\<lparr>start = 0, endt = 7, speaker = ''SPEAKER_00''\<rparr>,
      \<lparr>start = 8, endt = 20, speaker = ''SPEAKER_01''\<rparr>] =
   [\<lparr>start = 0, endt = 10, speaker = ''SPEAKER_00'', rtext = ''a''\<rparr>,
    \<lparr>start = 5, endt = 15, speaker = ''SPEAKER_01'', rtext = ''b''\<rparr>] \<and>
   \<not> (start \<lparr>start = 5, endt = 15, speaker = ''SPEAKER_01'', rtext = ''b''\<rparr> \<ge>
      endt \<lparr>start = 0, endt = 10, speaker = ''SPEAKER_00'', rtext = ''a''\<rparr>) \<and>
   \<lparr>start = 0, endt = 10, speaker = ''SPEAKER_00'', rtext = ''a''\<rparr> \<noteq>
   \<lparr>start = 5, endt = 15, speaker = ''SPEAKER_01'', rtext = ''b''\<rparr>"
  by (simp add: process_with_speakers_def post_process_diarization_def smooth_step_def annotation_setitem_def segment_bool_def
      segment_less_def
      merge_overlapping_chunks_def merge_chunk_def align_whisper_with_diarization_def
      align_chunk_def overlap_stats_of_def remove_redundant_segments_def remove_step_def
      merge_consecutive_speakers_def turn_step_def)

text \<open>Durations through the stages; a chunk counts with \<open>max 0 (end - start)\<close>.\<close>

lemma merge_chunk_cases:
  "merge_chunk merged cur = merged @ [cur] \<or>
   (fst (timestamp cur) < snd (timestamp (last merged)) \<and>
    snd (timestamp (last merged)) - fst (timestamp cur) >
      (snd (timestamp (last merged)) - fst (timestamp (last merged))) * 0.5 \<and>
    (\<exists>t. merge_chunk merged cur =
       butlast merged @
         [(last merged)\<lparr>ctext := t,
            timestamp := (fst (timestamp (last merged)), snd (timestamp cur))\<rparr>]))"
  unfolding merge_chunk_def Let_def by (simp only: split: if_split) blast

lemma stitched_duration:
  fixes s1 e1 s2 e2 :: real
  assumes "s2 < e1" "e1 - s2 > (e1 - s1) * 0.5"
  shows "max 0 (e2 - s1) \<le> max 0 (e1 - s1) + max 0 (e2 - s2)"
  using assms by (auto simp: max_def)

lemma sum_list_butlast_last:
  "xs \<noteq> [] \<Longrightarrow> (\<Sum>x\<leftarrow>xs. f x) = (\<Sum>x\<leftarrow>butlast xs. f x) + (f (last xs) :: real)"
  by (induction xs) auto

lemma merge_chunk_duration:
  assumes "merged \<noteq> []"
  shows "(\<Sum>c\<leftarrow>merge_chunk merged cur. max 0 (snd (timestamp c) - fst (timestamp c))) \<le>
         (\<Sum>c\<leftarrow>merged. max 0 (snd (timestamp c) - fst (timestamp c))) +
         max 0 (snd (timestamp cur) - fst (timestamp cur))"
    and "merge_chunk merged cur \<noteq> []"
    and "length (merge_chunk merged cur) \<le> Suc (length merged)"
proof -
  let ?d = "\<lambda>c. max 0 (snd (timestamp c) - fst (timestamp c))"
  from merge_chunk_cases [of merged cur]
  consider (app) "merge_chunk merged cur = merged @ [cur]" |
    (st) t where "fst (timestamp cur) < snd (timestamp (last merged))"
      "snd (timestamp (last merged)) - fst (timestamp cur) >
        (snd (timestamp (last merged)) - fst (timestamp (last merged))) * 0.5"
      "merge_chunk merged cur =
       butlast merged @
         [(last merged)\<lparr>ctext := t,
            timestamp := (fst (timestamp (last merged)), snd (timestamp cur))\<rparr>]"
    by blast
  then have "(\<Sum>c\<leftarrow>merge_chunk merged cur. ?d c) \<le> (\<Sum>c\<leftarrow>merged. ?d c) + ?d cur \<and>
      merge_chunk merged cur \<noteq> [] \<and> length (merge_chunk merged cur) \<le> Suc (length merged)"
  proof cases
    case app
    then show ?thesis by simp
  next
    case st
    from stitched_duration [OF st(1) st(2), of "snd (timestamp cur)"]
    have "max 0 (snd (timestamp cur) - fst (timestamp (last merged))) \<le>
        ?d (last merged) + ?d cur" .
    then show ?thesis
      using st(3) sum_list_butlast_last [OF assms, of ?d] by simp
  qed
  then show "(\<Sum>c\<leftarrow>merge_chunk merged cur. ?d c) \<le> (\<Sum>c\<leftarrow>merged. ?d c) + ?d cur"
    and "merge_chunk merged cur \<noteq> []"
    and "length (merge_chunk merged cur) \<le> Suc (length merged)" by blast+
qed

lemma foldl_merge_chunk_duration:
  "merged \<noteq> [] \<Longrightarrow>
   (\<Sum>c\<leftarrow>foldl merge_chunk merged rest. max 0 (snd (timestamp c) - fst (timestamp c))) \<le>
     (\<Sum>c\<leftarrow>merged. max 0 (snd (timestamp c) - fst (timestamp c))) +
     (\<Sum>c\<leftarrow>rest. max 0 (snd (timestamp c) - fst (timestamp c))) \<and>
   length (foldl merge_chunk merged rest) \<le> length merged + length rest"
proof (induction rest arbitrary: merged)
  case Nil
  show ?case by simp
next
  case (Cons cur rest)
  from merge_chunk_duration [OF Cons.prems, of cur] Cons.IH [of "merge_chunk merged cur"]
  show ?case by fastforce
qed

lemma merge_overlapping_chunks_duration:
  "(\<Sum>c\<leftarrow>merge_overlapping_chunks chunks. max 0 (snd (timestamp c) - fst (timestamp c))) \<le>
     (\<Sum>c\<leftarrow>chunks. max 0 (snd (timestamp c) - fst (timestamp c))) \<and>
   length (merge_overlapping_chunks chunks) \<le> length chunks"
proof (cases chunks)
  case Nil
  then show ?thesis by (simp add: merge_overlapping_chunks_def)
next
  case (Cons c cs)
  with foldl_merge_chunk_duration [of "[c]" cs] show ?thesis
    by (simp add: merge_overlapping_chunks_def)
qed

lemma align_chunk_cases:
  "(snd (timestamp c) - fst (timestamp c) \<le> 0 \<and> align_chunk segs c = []) \<or>
   (snd (timestamp c) - fst (timestamp c) > 0 \<and>
    (\<exists>sp. align_chunk segs c =
       [\<lparr>start = fst (timestamp c), endt = snd (timestamp c), speaker = sp, rtext = ctext c\<rparr>]))"
  by (auto simp: align_chunk_def Let_def split: list.splits)

lemma align_chunk_duration:
  "(\<Sum>r\<leftarrow>align_chunk segs c. endt r - start r) = max 0 (snd (timestamp c) - fst (timestamp c)) \<and>
   list_all (\<lambda>r. endt r - start r > 0) (align_chunk segs c) \<and>
   length (align_chunk segs c) \<le> 1"
  using align_chunk_cases [of c segs] by auto

lemma align_duration:
  "total_duration (align_whisper_with_diarization chunks segs) =
     (\<Sum>c\<leftarrow>chunks. max 0 (snd (timestamp c) - fst (timestamp c))) \<and>
   list_all (\<lambda>r. endt r - start r > 0) (align_whisper_with_diarization chunks segs) \<and>
   length (align_whisper_with_diarization chunks segs) \<le> length chunks"
proof (induction chunks)
  case Nil
  show ?case by (simp add: align_whisper_with_diarization_def total_duration_def)
next
  case (Cons c cs)
  with align_chunk_duration [of segs c] show ?case
    by (auto simp: align_whisper_with_diarization_def total_duration_def)
qed

lemma sum_list_insort_key:
  "(\<Sum>r\<leftarrow>insort_key f x xs. g r) = g x + (\<Sum>r\<leftarrow>xs. (g r :: real))"
  by (induction xs) auto

lemma sum_list_sort_key: "(\<Sum>r\<leftarrow>sort_key f xs. g r) = (\<Sum>r\<leftarrow>xs. (g r :: real))"
  by (induction xs) (simp_all add: sum_list_insort_key)

lemma total_duration_sort: "total_duration (sort_key f rs) = total_duration rs"
  by (simp add: total_duration_def sum_list_sort_key)

lemma list_all_sort: "list_all P (sort_key f rs) = list_all P rs"
  by (simp add: list_all_iff)

lemma remove_redundant_segments_duration:
  assumes "list_all (\<lambda>r. endt r - start r > 0) segments"
  shows "total_duration (remove_redundant_segments segments) \<le> total_duration segments"
    and "list_all (\<lambda>r. endt r - start r > 0) (remove_redundant_segments segments)"
    and "length (remove_redundant_segments segments) \<le> length segments"
proof -
  have "total_duration (remove_redundant_segments segments) \<le> total_duration segments \<and>
     list_all (\<lambda>r. endt r - start r > 0) (remove_redundant_segments segments) \<and>
     length (remove_redundant_segments segments) \<le> length segments"
  proof (cases segments)
    case Nil
    then show ?thesis by (simp add: remove_redundant_segments_def)
  next
    case (Cons s rest)
    from remove_redundant_segments_Cons [of s rest] obtain ext where
      e: "remove_redundant_segments (s # rest) = s # ext"
        "list_all (\<lambda>c. endt c - start c > 0.1) ext" "length ext \<le> length rest"
        "list_all (\<lambda>c. endt c - start c \<ge> 0) rest \<longrightarrow>
        (\<Sum>r\<leftarrow>ext. endt r - start r) \<le> (\<Sum>r\<leftarrow>rest. endt r - start r)"
      by blast
    from assms Cons have "list_all (\<lambda>c. endt c - start c \<ge> 0) rest" and s: "endt s - start s > 0"
      by (auto simp: list_all_iff intro: less_imp_le)
    with e(4) have "(\<Sum>r\<leftarrow>ext. endt r - start r) \<le> (\<Sum>r\<leftarrow>rest. endt r - start r)" by blast
    moreover from e(2) have "list_all (\<lambda>c. endt c - start c > 0) ext"
      by (auto simp: list_all_iff)
    ultimately show ?thesis using e(1) e(3) s Cons by (simp add: total_duration_def)
  qed
  then show "total_duration (remove_redundant_segments segments) \<le> total_duration segments"
    and "list_all (\<lambda>r. endt r - start r > 0) (remove_redundant_segments segments)"
    and "length (remove_redundant_segments segments) \<le> length segments" by blast+
qed

lemma turn_step_duration:
  assumes "endt n - start n \<ge> 0" "turn_step (m, c) n = (m', c')"
  shows "total_duration (m' @ [c']) + 2 * real (length (m' @ [c'])) \<le>
         total_duration (m @ [c]) + (endt n - start n) + 2 * real (length (m @ [c])) + 2"
proof (cases "speaker c = speaker n \<and> start n - endt c < 2.0")
  case True
  with assms(2) have "m' = m" "c' = c\<lparr>rtext := rtext c @ '' '' @ rtext n, endt := max (endt c) (endt n)\<rparr>"
    by (simp_all add: turn_step_cases)
  with True assms(1) show ?thesis by (auto simp: total_duration_def max_def)
next
  case False
  with assms(2) have "m' = m @ [c]" "c' = n" by (auto simp: turn_step_cases)
  then show ?thesis by (simp add: total_duration_def)
qed

lemma foldl_turn_step_duration:
  "list_all (\<lambda>r. endt r - start r \<ge> 0) rest \<Longrightarrow>
   total_duration (fst (foldl turn_step st rest) @ [snd (foldl turn_step st rest)]) +
     2 * real (length (fst (foldl turn_step st rest) @ [snd (foldl turn_step st rest)])) \<le>
   total_duration (fst st @ [snd st]) + total_duration rest +
     2 * real (length (fst st @ [snd st]) + length rest)"
proof (induction rest arbitrary: st)
  case Nil
  show ?case by (simp add: total_duration_def)
next
  case (Cons n rest)
  obtain m c where st: "st = (m, c)" by (cases st)
  obtain m' c' where s': "turn_step (m, c) n = (m', c')" by (cases "turn_step (m, c) n")
  from Cons.prems have n: "endt n - start n \<ge> 0" and r: "list_all (\<lambda>r. endt r - start r \<ge> 0) rest"
    by simp_all
  from turn_step_duration [OF n s'] Cons.IH [OF r, of "(m', c')"] st s'
  show ?case by (simp add: total_duration_def)
qed

lemma merge_consecutive_speakers_duration:
  assumes "list_all (\<lambda>r. endt r - start r > 0) results"
  shows "total_duration (merge_consecutive_speakers results) +
           2 * real (length (merge_consecutive_speakers results)) \<le>
         total_duration results + 2 * real (length results)"
proof (cases results)
  case Nil
  then show ?thesis by (simp add: merge_consecutive_speakers_def)
next
  case (Cons r rest)
  with assms have "list_all (\<lambda>r. endt r - start r \<ge> 0) rest"
    by (auto simp: list_all_iff intro: less_imp_le)
  from foldl_turn_step_duration [OF this, of "([], r)"] Cons show ?thesis
    by (simp add: merge_consecutive_speakers_def case_prod_beta total_duration_def)
qed

text \<open>
  Claim C3, as the code has it. Up to and including the redundancy remover the total
  duration never exceeds that of the input chunks (each counted with its positive part).
  The turn merger spans the gap between the segments it folds, a gap below 2.0 seconds:
  the total duration of the final output exceeds that of the input chunks by at most 2.0
  seconds for each segment folded away or dropped (the number of input chunks minus the
  number of output segments).
\<close>

theorem coverage_up_to_turn_gaps:
  "total_duration
     (remove_redundant_segments (sort_key start
        (align_whisper_with_diarization (merge_overlapping_chunks all_chunks)
           (post_process_diarization raw_annotation)))) \<le>
     (\<Sum>c\<leftarrow>all_chunks. max 0 (snd (timestamp c) - fst (timestamp c))) \<and>
   total_duration (process_with_speakers all_chunks raw_annotation) \<le>
     (\<Sum>c\<leftarrow>all_chunks. max 0 (snd (timestamp c) - fst (timestamp c))) +
     2.0 * (real (length all_chunks) -
            real (length (process_with_speakers all_chunks raw_annotation)))"
proof -
  let ?chunks = "merge_overlapping_chunks all_chunks"
  let ?al = "align_whisper_with_diarization ?chunks (post_process_diarization raw_annotation)"
  let ?so = "sort_key start ?al"
  let ?cl = "remove_redundant_segments ?so"
  let ?pos = "\<lambda>cs. \<Sum>c\<leftarrow>cs. max 0 (snd (timestamp c) - fst (timestamp c))"
  have p: "process_with_speakers all_chunks raw_annotation = merge_consecutive_speakers ?cl"
    by (simp add: process_with_speakers_def)
  from merge_overlapping_chunks_duration [of all_chunks]
  have m: "?pos ?chunks \<le> ?pos all_chunks" "length ?chunks \<le> length all_chunks" by blast+
  from align_duration [of ?chunks "post_process_diarization raw_annotation"]
  have a: "total_duration ?al = ?pos ?chunks" "list_all (\<lambda>r. endt r - start r > 0) ?al"
    "length ?al \<le> length ?chunks" by blast+
  have s: "total_duration ?so = total_duration ?al" "list_all (\<lambda>r. endt r - start r > 0) ?so"
    "length ?so = length ?al"
    using a(2) by (simp_all add: total_duration_sort list_all_sort)
  note c = remove_redundant_segments_duration [OF s(2)]
  have 1: "total_duration ?cl \<le> ?pos all_chunks"
    using c(1) s(1) a(1) m(1) by simp
  from merge_consecutive_speakers_duration [OF c(2)]
  have "total_duration (merge_consecutive_speakers ?cl) +
           2 * real (length (merge_consecutive_speakers ?cl)) \<le>
         total_duration ?cl + 2 * real (length ?cl)" .
  moreover have "real (length ?cl) \<le> real (length all_chunks)"
    using c(3) s(3) a(3) m(2) by simp
  ultimately have 2: "total_duration (merge_consecutive_speakers ?cl) \<le>
      ?pos all_chunks + 2.0 * (real (length all_chunks) -
         real (length (merge_consecutive_speakers ?cl)))"
    using 1 by simp
  from 1 2 show ?thesis unfolding p by blast
qed

text \<open>Two chunks of one second each, 1.5 seconds apart, become one turn of 3.5 seconds.\<close>

theorem coverage_counterexample:
  "total_duration
     (process_with_speakers
        [\<lparr>timestamp = (0, 1), ctext = ''a''\<rparr>, \<lparr>timestamp = (2.5, 3.5), ctext = ''b''\<rparr>]
        [\<lparr>start = 0, endt = 10, speaker = ''SPEAKER_00''\<rparr>]) = 3.5 \<and>
   chunks_duration
     [\<lparr>timestamp = (0, 1), ctext = ''a''\<rparr>, \<lparr>timestamp = (2.5, 3.5), ctext = ''b''\<rparr>] = 2 \<and>
   \<not> total_duration
     (process_with_speakers
        [\<lparr>timestamp = (0, 1), ctext = ''a''\<rparr>, \<lparr>timestamp = (2.5, 3.5), ctext = ''b''\<rparr>]
        [\<lparr>start = 0, endt = 10, speaker = ''SPEAKER_00''\<rparr>]) \<le>
     chunks_duration
     [\<lparr>timestamp = (0, 1), ctext = ''a''\<rparr>, \<lparr>timestamp = (2.5, 3.5), ctext = ''b''\<rparr>]"
  by (simp add: process_with_speakers_def post_process_diarization_def
      annotation_setitem_def segment_bool_def
      merge_overlapping_chunks_def merge_chunk_def align_whisper_with_diarization_def
      align_chunk_def overlap_stats_of_def remove_redundant_segments_def remove_step_def
      merge_consecutive_speakers_def turn_step_def total_duration_def chunks_duration_def
      py_split_def py_lower_def lower_char_def is_space_def)

lemma remove_redundant_segments_Nil_iff:
  "remove_redundant_segments segments = [] \<longleftrightarrow> segments = []"
proof (cases segments)
  case Nil
  then show ?thesis by (simp add: remove_redundant_segments_def)
next
  case (Cons s rest)
  with remove_redundant_segments_Cons [of s rest] show ?thesis by auto
qed

lemma remove_redundant_segments_speakers:
  "set (map speaker (remove_redundant_segments segments)) \<subseteq> set (map speaker segments)"
proof (cases segments)
  case Nil
  then show ?thesis by (simp add: remove_redundant_segments_def)
next
  case (Cons s rest)
  from remove_redundant_segments_Cons [of s rest] obtain ext where
    "remove_redundant_segments (s # rest) = s # ext"
    "set (map speaker ext) \<subseteq> set (map speaker rest)" by blast
  with Cons show ?thesis by auto
qed

lemma foldl_turn_step_speakers:
  "set (map speaker (fst (foldl turn_step st rest) @ [snd (foldl turn_step st rest)])) \<subseteq>
   set (map speaker (fst st @ [snd st])) \<union> set (map speaker rest)"
proof (induction rest arbitrary: st)
  case Nil
  show ?case by simp
next
  case (Cons n rest)
  obtain m c where st: "st = (m, c)" by (cases st)
  have 1: "set (map speaker (fst (turn_step (m, c) n) @ [snd (turn_step (m, c) n)])) \<subseteq>
      set (map speaker (m @ [c])) \<union> {speaker n}"
    by (auto simp: turn_step_cases)
  have 2: "foldl turn_step st (n # rest) = foldl turn_step (turn_step (m, c) n) rest"
    by (simp add: st)
  from Cons.IH [of "turn_step (m, c) n"] 1
  have "set (map speaker (fst (foldl turn_step (turn_step (m, c) n) rest) @
            [snd (foldl turn_step (turn_step (m, c) n) rest)])) \<subseteq>
        (set (map speaker (m @ [c])) \<union> {speaker n}) \<union> set (map speaker rest)"
    by blast
  then show ?case unfolding 2 by (simp add: st)
qed

lemma merge_consecutive_speakers_speakers:
  "set (map speaker (merge_consecutive_speakers results)) \<subseteq> set (map speaker results)"
proof (cases results)
  case Nil
  then show ?thesis by (simp add: merge_consecutive_speakers_def)
next
  case (Cons r rest)
  with foldl_turn_step_speakers [of "([], r)" rest] show ?thesis
    by (simp add: merge_consecutive_speakers_def case_prod_beta)
qed

lemma merge_consecutive_speakers_Nil_iff:
  "merge_consecutive_speakers results = [] \<longleftrightarrow> results = []"
  by (cases results) (simp_all add: merge_consecutive_speakers_def case_prod_beta)

lemma align_chunk_no_segments:
  "align_chunk [] c =
     (if snd (timestamp c) - fst (timestamp c) \<le> 0 then []
      else [\<lparr>start = fst (timestamp c), endt = snd (timestamp c),
             speaker = ''SPEAKER_00'', rtext = ctext c\<rparr>])"
  by (simp add: align_chunk_def overlap_stats_of_def find_nearest_speaker_def)

lemma align_no_segments:
  "set (map speaker (align_whisper_with_diarization chunks [])) \<subseteq> {''SPEAKER_00''} \<and>
   (align_whisper_with_diarization chunks [] = [] \<longleftrightarrow>
      \<not> (\<exists>c \<in> set chunks. fst (timestamp c) < snd (timestamp c)))"
  by (induction chunks)
    (auto simp: align_whisper_with_diarization_def align_chunk_no_segments)

lemma align_no_segments_map:
  "align_whisper_with_diarization chunks [] =
     map (\<lambda>c. \<lparr>start = fst (timestamp c), endt = snd (timestamp c),
                speaker = ''SPEAKER_00'', rtext = ctext c\<rparr>)
       (filter (\<lambda>c. fst (timestamp c) < snd (timestamp c)) chunks)"
  by (induction chunks)
    (auto simp: align_whisper_with_diarization_def align_chunk_no_segments)

text \<open>
  Claim C4, as the code has it. No input raises an error (every function of the model is
  total, as the source has no failing path on well-formed chunks and intervals). With
  no chunks the output is empty. With no speaker intervals the output is empty exactly
  when no merged chunk has a positive duration, and every segment of the output carries
  the default speaker \<^verbatim>\<open>SPEAKER_00\<close>: the alignment turns each chunk of positive duration
  into a segment with that speaker, and the remover and the turn merger, which can still
  drop or fold segments, never empty a list that is not empty.
\<close>

theorem empty_input:
  "process_with_speakers [] raw_annotation = [] \<and>
   (process_with_speakers all_chunks [] = [] \<longleftrightarrow>
      \<not> (\<exists>c \<in> set (merge_overlapping_chunks all_chunks). fst (timestamp c) < snd (timestamp c))) \<and>
   list_all (\<lambda>r. speaker r = ''SPEAKER_00'') (process_with_speakers all_chunks []) \<and>
   align_whisper_with_diarization chunks [] =
     map (\<lambda>c. \<lparr>start = fst (timestamp c), endt = snd (timestamp c),
                speaker = ''SPEAKER_00'', rtext = ctext c\<rparr>)
       (filter (\<lambda>c. fst (timestamp c) < snd (timestamp c)) chunks)"
proof (intro conjI)
  show "process_with_speakers [] raw_annotation = []"
    by (simp add: process_with_speakers_def merge_overlapping_chunks_def
        align_whisper_with_diarization_def remove_redundant_segments_def
        merge_consecutive_speakers_def)
next
  let ?al = "align_whisper_with_diarization (merge_overlapping_chunks all_chunks) []"
  have p: "process_with_speakers all_chunks [] =
      merge_consecutive_speakers (remove_redundant_segments (sort_key start ?al))"
    by (simp add: process_with_speakers_def post_process_diarization_def)
  have "process_with_speakers all_chunks [] = [] \<longleftrightarrow> ?al = []"
    unfolding p merge_consecutive_speakers_Nil_iff remove_redundant_segments_Nil_iff
    by (metis length_sort length_0_conv)
  with align_no_segments [of "merge_overlapping_chunks all_chunks"]
  show "process_with_speakers all_chunks [] = [] \<longleftrightarrow>
      \<not> (\<exists>c \<in> set (merge_overlapping_chunks all_chunks). fst (timestamp c) < snd (timestamp c))"
    by blast
  have "set (map speaker (process_with_speakers all_chunks [])) \<subseteq>
      set (map speaker (sort_key start ?al))"
    unfolding p
    using merge_consecutive_speakers_speakers remove_redundant_segments_speakers
    by (rule subset_trans)
  also have "\<dots> = set (map speaker ?al)" by simp
  also have "\<dots> \<subseteq> {''SPEAKER_00''}"
    using align_no_segments [of "merge_overlapping_chunks all_chunks"] by blast
  finally show "list_all (\<lambda>r. speaker r = ''SPEAKER_00'') (process_with_speakers all_chunks [])"
    by (auto simp: list_all_iff)
  show "align_whisper_with_diarization chunks [] =
     map (\<lambda>c. \<lparr>start = fst (timestamp c), endt = snd (timestamp c),
                speaker = ''SPEAKER_00'', rtext = ctext c\<rparr>)
       (filter (\<lambda>c. fst (timestamp c) < snd (timestamp c)) chunks)"
    by (rule align_no_segments_map)
qed

text \<open>One chunk and no speaker interval: the output is not empty.\<close>

theorem empty_intervals_counterexample:
  "process_with_speakers [\<lparr>timestamp = (0, 1), ctext = ''a''\<rparr>] [] =
     [\<lparr>start = 0, endt = 1, speaker = ''SPEAKER_00'', rtext = ''a''\<rparr>] \<and>
   process_with_speakers [\<lparr>timestamp = (0, 1), ctext = ''a''\<rparr>] [] \<noteq> []"
  by (simp add: process_with_speakers_def post_process_diarization_def
      merge_overlapping_chunks_def align_whisper_with_diarization_def
      align_chunk_def overlap_stats_of_def find_nearest_speaker_def
      remove_redundant_segments_def merge_consecutive_speakers_def)

end
